theory Spec2Isabelle
  imports Main "HOL-Library.Sublist"
begin

section \<open>Data model of \<^verbatim>\<open>soap.go\<close>\<close>

text \<open>
  Go strings are byte sequences; they are modelled as \<^typ>\<open>string\<close> (lists of 8-bit
  characters). A \<^verbatim>\<open>time.Duration\<close> is only ever handed to \<^verbatim>\<open>Time.Add\<close>, so it
  is an integer number of nanoseconds. The type of time values is a parameter \<open>'t\<close>, the
  type of parsed response trees (\<^verbatim>\<open>mxj.Map\<close>) a parameter \<open>'m\<close>: both belong to
  packages outside the repository.
\<close>

type_synonym Duration = int

record 't SOAP =
  Body :: string
  XMLNs :: "string list"
  User :: string
  Password :: string
  TokenAge :: Duration
  Action :: string
  NoDebug :: bool
  CameraTime :: 't

text \<open>A Go \<^verbatim>\<open>error\<close> value, identified by its message; \<^verbatim>\<open>errors.New\<close> builds one.\<close>

datatype error = Error string

definition errors_New :: "string \<Rightarrow> error" where
  "errors_New text = Error text"

text \<open>
  \<^verbatim>\<open>url.URL\<close>: the user information is the one field the code assigns; the other
  components are kept as parsed.
\<close>

record URL =
  url_Scheme :: string
  url_User :: "(string \<times> string) option"
  url_Rest :: string

record Request =
  req_Method :: string
  req_URL :: string
  req_Header :: "string \<rightharpoonup> string"
  req_Body :: string

text \<open>
  \<^verbatim>\<open>http.Response\<close>: \<open>resp_Body\<close> is what \<^verbatim>\<open>ioutil.ReadAll(resp.Body)\<close> yields,
  the bytes of the body or a read error.
\<close>

record Response =
  resp_Body :: "error + string"

text \<open>
  The packages the code calls, as a record of functions. A Go call returning
  \<^verbatim>\<open>(value, error)\<close> is a function into \<open>error + value\<close>;
  \<^verbatim>\<open>ValueForPathString\<close> keeps its pair, because the code drops the error and reads
  the string.
\<close>

record ('t, 'm) library =
  time_IsZero :: "'t \<Rightarrow> bool"
  time_Add :: "'t \<Rightarrow> Duration \<Rightarrow> 't"
  time_UTC :: "'t \<Rightarrow> 't"
  time_Format :: "'t \<Rightarrow> string \<Rightarrow> string"
  sha1_Sum :: "string \<Rightarrow> string"
  url_Parse :: "string \<Rightarrow> error + URL"
  url_String :: "URL \<Rightarrow> string"
  http_NewRequest :: "string \<Rightarrow> string \<Rightarrow> string \<Rightarrow> error + Request"
  mxj_NewMapXml :: "string \<Rightarrow> error + 'm"
  ValueForPathString :: "'m \<Rightarrow> string \<Rightarrow> string \<times> error option"

text \<open>
  What a call observes and changes outside the descriptor: the random source behind
  \<^verbatim>\<open>uuid.New\<close>, the clock behind \<^verbatim>\<open>time.Now\<close> (each with the number of reads so
  far), the network behind the digest transport, and the trace of calls that log,
  construct an HTTP request, dispatch it or close the response body.
\<close>

datatype event =
    LogInfo string
  | NewRequestCall string string string
  | RoundTripCall Request
  | BodyClose

record 't world =
  uuid_source :: "nat \<Rightarrow> string"
  uuid_reads :: nat
  clock_source :: "nat \<Rightarrow> 't"
  clock_reads :: nat
  transport :: "string \<Rightarrow> string \<Rightarrow> Request \<Rightarrow> error + Response"
  trace :: "event list"

definition uuid_New :: "'t world \<Rightarrow> string \<times> 't world" where
  "uuid_New w = (uuid_source w (uuid_reads w), w\<lparr>uuid_reads := Suc (uuid_reads w)\<rparr>)"

definition time_Now :: "'t world \<Rightarrow> 't \<times> 't world" where
  "time_Now w = (clock_source w (clock_reads w), w\<lparr>clock_reads := Suc (clock_reads w)\<rparr>)"

definition emit :: "event \<Rightarrow> 't world \<Rightarrow> 't world" where
  "emit e w = w\<lparr>trace := trace w @ [e]\<rparr>"

definition RFC3339 :: string where
  "RFC3339 = ''2006-01-02T15:04:05Z07:00''"

section \<open>\<^verbatim>\<open>encoding/base64\<close>: \<^verbatim>\<open>StdEncoding.EncodeToString\<close>\<close>

definition encodeStd :: string where
  "encodeStd = ''ABCDEFGHIJKLMNOPQRSTUVWXYZabcdefghijklmnopqrstuvwxyz0123456789+/''"

fun encode_groups :: "nat list \<Rightarrow> string" where
  "encode_groups [] = []"
| "encode_groups [a] =
     [encodeStd ! (a div 4), encodeStd ! (a mod 4 * 16), CHR ''='', CHR ''='']"
| "encode_groups [a, b] =
     [encodeStd ! (a div 4), encodeStd ! (a mod 4 * 16 + b div 16),
      encodeStd ! (b mod 16 * 4), CHR ''='']"
| "encode_groups (a # b # c # rest) =
     [encodeStd ! (a div 4), encodeStd ! (a mod 4 * 16 + b div 16),
      encodeStd ! (b mod 16 * 4 + c div 64), encodeStd ! (c mod 64)] @ encode_groups rest"

definition EncodeToString :: "string \<Rightarrow> string" where
  "EncodeToString src = encode_groups (map of_char src)"

section \<open>\<^verbatim>\<open>regexp\<close>: the two patterns and \<^verbatim>\<open>ReplaceAllString\<close>\<close>

text \<open>
  Go's white-space class is tab, line feed, form feed, carriage return and space. A
  compiled pattern is modelled by the length of its leftmost-first match that starts at
  the head of the remaining input, 0 when there is none there (neither pattern matches
  the empty string). \<^verbatim>\<open>ReplaceAllString\<close> scans from the left, replaces each
  match and resumes behind it. In the first pattern the backslashes escape punctuation:
  it is a closing angle bracket, a greedy non-empty run of white space and an opening
  angle bracket (\<open>re_tag_gap\<close>); the second is a greedy non-empty run of white space
  (\<open>re_spaces\<close>).
\<close>

definition isSpace :: "char \<Rightarrow> bool" where
  "isSpace c =
     (c = CHR 0x09 \<or> c = CHR 0x0A \<or> c = CHR 0x0C \<or> c = CHR 0x0D \<or> c = CHR 0x20)"

fun ReplaceAllString :: "(string \<Rightarrow> nat) \<Rightarrow> string \<Rightarrow> string \<Rightarrow> string" where
  "ReplaceAllString re [] repl = []"
| "ReplaceAllString re (c # cs) repl =
     (if re (c # cs) = 0 then c # ReplaceAllString re cs repl
      else repl @ ReplaceAllString re (drop (re (c # cs)) (c # cs)) repl)"

definition re_tag_gap :: "string \<Rightarrow> nat" where
  "re_tag_gap s =
     (case s of
        [] \<Rightarrow> 0
      | c # cs \<Rightarrow>
          (let n = length (takeWhile isSpace cs)
           in if c = CHR ''>'' \<and> 0 < n \<and> take 1 (drop n cs) = ''<'' then 1 + n + 1 else 0))"

definition re_spaces :: "string \<Rightarrow> nat" where
  "re_spaces s = length (takeWhile isSpace s)"

text \<open>The two clean-up statements at the end of \<^verbatim>\<open>createRequest\<close>.\<close>

definition clean :: "string \<Rightarrow> string" where
  "clean request =
     (let request = ReplaceAllString re_tag_gap request ''><'';
          request = ReplaceAllString re_spaces request '' ''
      in request)"

section \<open>\<^verbatim>\<open>createUserToken\<close>\<close>

abbreviation LF :: char where "LF \<equiv> CHR 0x0A"
abbreviation TAB :: char where "TAB \<equiv> CHR 0x09"

text \<open>
  The raw string literal of the template, line by line: the tags, and the line breaks
  with their indentation (a line feed, then spaces and tabs) between them.
\<close>

definition Security_tag :: string where
  \<open>Security_tag =
     ''<Security s:mustUnderstand="1" xmlns="http://docs.oasis-open.org/wss/2004/01/oasis-200401-wss-wssecurity-secext-1.0.xsd">''\<close>

definition UsernameToken_tag :: string where
  "UsernameToken_tag = ''<UsernameToken>''"

definition Username_open :: string where
  "Username_open = ''<Username>''"

definition Username_close :: string where
  "Username_close = ''</Username>''"

definition Password_tag :: string where
  \<open>Password_tag =
     ''<Password Type="http://docs.oasis-open.org/wss/2004/01/oasis-200401-wss-username-token-profile-1.0#PasswordDigest">''\<close>

definition Password_close :: string where
  "Password_close = ''</Password>''"

definition Nonce_tag :: string where
  \<open>Nonce_tag =
     ''<Nonce EncodingType="http://docs.oasis-open.org/wss/2004/01/oasis-200401-wss-soap-message-security-1.0#Base64Binary">''\<close>

definition Nonce_close :: string where
  "Nonce_close = ''</Nonce>''"

definition Created_tag :: string where
  \<open>Created_tag =
     ''<Created xmlns="http://docs.oasis-open.org/wss/2004/01/oasis-200401-wss-wssecurity-utility-1.0.xsd">''\<close>

definition Created_close :: string where
  "Created_close = ''</Created>''"

definition UsernameToken_close :: string where
  "UsernameToken_close = ''</UsernameToken>''"

definition Security_close :: string where
  "Security_close = ''</Security>''"

definition indent_a :: string where
  "indent_a = [LF] @ ''  '' @ [TAB, TAB]"

definition indent_b :: string where
  "indent_b = [LF] @ ''    '' @ [TAB, TAB]"

definition indent_c :: string where
  "indent_c = [LF, TAB, TAB]"

definition indent_d :: string where
  "indent_d = [LF, TAB]"

definition createUserToken :: "('t, 'm) library \<Rightarrow> 't SOAP \<Rightarrow> 't world \<Rightarrow> string \<times> 't world" where
  "createUserToken L soap w0 =
     (let (nonce, w1) = uuid_New w0;
          nonce64 = EncodeToString nonce;
          (timestamp, w2) =
            (if \<not> time_IsZero L (CameraTime soap)
             then (time_Format L (time_UTC L (time_Add L (CameraTime soap) (TokenAge soap))) RFC3339,
                   w1)
             else (let (now, w') = time_Now w1
                   in (time_Format L (time_UTC L (time_Add L now (TokenAge soap))) RFC3339, w')));
          token = nonce @ timestamp @ Password soap;
          shaToken = sha1_Sum L token;
          shaDigest64 = EncodeToString shaToken
      in (Security_tag
            @ indent_a @ UsernameToken_tag
            @ indent_b @ Username_open @ User soap @ Username_close
            @ indent_b @ Password_tag @ shaDigest64 @ Password_close
            @ indent_b @ Nonce_tag @ nonce64 @ Nonce_close
            @ indent_b @ Created_tag @ timestamp @ Created_close
            @ indent_c @ UsernameToken_close
            @ indent_d @ Security_close,
          w2))"

section \<open>\<^verbatim>\<open>createRequest\<close>\<close>

definition env_decl :: string where
  \<open>env_decl = ''<?xml version="1.0" encoding="UTF-8"?>''\<close>

definition env_open :: string where
  \<open>env_open = ''<s:Envelope xmlns:s="http://www.w3.org/2003/05/soap-envelope"''\<close>

definition Header_open :: string where
  "Header_open = ''<s:Header>''"

definition Action_open :: string where
  \<open>Action_open =
     ''<Action mustUnderstand="1"'' @ [LF] @ replicate 7 TAB
     @ ''   xmlns="http://www.w3.org/2005/08/addressing">''\<close>

definition Action_close :: string where
  "Action_close = ''</Action>''"

definition Header_close :: string where
  "Header_close = ''</s:Header>''"

definition Body_open :: string where
  "Body_open = ''<s:Body>''"

definition Body_close :: string where
  "Body_close = ''</s:Body>''"

definition Envelope_close :: string where
  "Envelope_close = ''</s:Envelope>''"

definition createRequest :: "('t, 'm) library \<Rightarrow> 't SOAP \<Rightarrow> 't world \<Rightarrow> string \<times> 't world" where
  "createRequest L soap w0 =
     (let request = env_decl;
          request = request @ env_open;
          request = foldl (\<lambda>request namespace. request @ '' '' @ namespace) request (XMLNs soap);
          request = request @ ''>'';
          (request, w) =
            (if Action soap \<noteq> [] \<or> User soap \<noteq> []
             then (let request = request @ Header_open;
                       request =
                         (if Action soap \<noteq> []
                          then request @ Action_open @ Action soap @ Action_close
                          else request);
                       (request, w) =
                         (if User soap \<noteq> []
                          then (let (tok, w') = createUserToken L soap w0 in (request @ tok, w'))
                          else (request, w0))
                   in (request @ Header_close, w))
             else (request, w0));
          request = request @ Body_open @ Body soap @ Body_close;
          request = request @ Envelope_close;
          request = ReplaceAllString re_tag_gap request ''><'';
          request = ReplaceAllString re_spaces request '' ''
      in (request, w))"

section \<open>\<^verbatim>\<open>SendRequest\<close>\<close>

text \<open>
  The Go function returns the pair \<^verbatim>\<open>(mxj.Map, error)\<close>, either of which can be
  \<^verbatim>\<open>nil\<close>: the model returns a pair of options. The deferred
  \<^verbatim>\<open>resp.Body.Close()\<close> runs on every return behind the round trip.
\<close>

definition SendRequest ::
  "('t, 'm) library \<Rightarrow> 't SOAP \<Rightarrow> string \<Rightarrow> 't world \<Rightarrow> ('m option \<times> error option) \<times> 't world" where
  "SendRequest L soap xaddr w0 =
     (let (request, w) = createRequest L soap w0
      in case url_Parse L xaddr of
           Inl err \<Rightarrow> ((None, Some err), w)
         | Inr urlXAddr \<Rightarrow>
             (let urlXAddr =
                    (if User soap \<noteq> []
                     then urlXAddr\<lparr>url_User := Some (User soap, Password soap)\<rparr>
                     else urlXAddr);
                  w = (if \<not> NoDebug soap then emit (LogInfo request) w else w);
                  w = emit (NewRequestCall ''POST'' (url_String L urlXAddr) request) w
              in case http_NewRequest L ''POST'' (url_String L urlXAddr) request of
                   Inl err \<Rightarrow> ((None, Some err), w)
                 | Inr req \<Rightarrow>
                     (let req = req\<lparr>req_Header :=
                                  (req_Header req)(''Content-Type'' \<mapsto> ''application/soap+xml'')\<rparr>;
                          req = req\<lparr>req_Header := (req_Header req)(''Charset'' \<mapsto> ''utf-8'')\<rparr>;
                          w = emit (RoundTripCall req) w
                      in case transport w (User soap) (Password soap) req of
                           Inl err \<Rightarrow> ((None, Some err), w)
                         | Inr resp \<Rightarrow>
                             (let (result, w) =
                                (case resp_Body resp of
                                   Inl err \<Rightarrow> ((None, Some err), w)
                                 | Inr responseBody \<Rightarrow>
                                     (let w = (if \<not> NoDebug soap
                                               then emit (LogInfo (''Onvif response: '' @ responseBody)) w
                                               else w)
                                      in case mxj_NewMapXml L responseBody of
                                           Inl err \<Rightarrow> ((None, Some err), w)
                                         | Inr mapXML \<Rightarrow>
                                             (let fault = fst (ValueForPathString L mapXML
                                                    ''Envelope.Body.Fault.Reason.Text.#text'')
                                              in if fault \<noteq> []
                                                 then ((None, Some (errors_New fault)), w)
                                                 else (let fault = fst (ValueForPathString L mapXML
                                                             ''Envelope.Body.Fault.faultstring'')
                                                       in if fault \<noteq> []
                                                          then ((None, Some (errors_New fault)), w)
                                                          else ((Some mapXML, None), w)))))
                              in (result, emit BodyClose w)))))"

section \<open>Auxiliary functions for the proofs about the clean-up\<close>

text \<open>\<open>gap cs\<close>: \<open>cs\<close> starts with a non-empty run of white space followed by \<^verbatim>\<open><\<close>.\<close>

fun lt_after_ws :: "string \<Rightarrow> bool" where
  "lt_after_ws [] = False"
| "lt_after_ws (c # cs) = (if isSpace c then lt_after_ws cs else c = CHR ''<'')"

fun gap :: "string \<Rightarrow> bool" where
  "gap [] = False"
| "gap (c # cs) = (isSpace c \<and> lt_after_ws cs)"

function collapse :: "string \<Rightarrow> string" where
  "collapse [] = []"
| "collapse (c # cs) =
     (if isSpace c then CHR '' '' # collapse (dropWhile isSpace cs) else c # collapse cs)"
  by pat_completeness auto
termination
  by (relation "measure length") (auto simp: less_Suc_eq_le length_dropWhile_le)

function strip :: "string \<Rightarrow> string" where
  "strip [] = []"
| "strip (c # cs) =
     (if c = CHR ''>'' \<and> gap cs
      then CHR ''>'' # CHR ''<'' # strip (tl (dropWhile isSpace cs))
      else c # strip cs)"
  by pat_completeness auto
termination
proof (relation "measure length")
  fix c :: char and cs :: string
  have "length (tl (dropWhile isSpace cs)) \<le> length cs"
    using length_dropWhile_le [of isSpace cs] by simp
  then show "(tl (dropWhile isSpace cs), c # cs) \<in> measure length" by simp
qed auto

text \<open>\<open>tight s\<close>: \<open>s\<close> neither starts nor ends with white space.\<close>

definition tight :: "string \<Rightarrow> bool" where
  "tight s = (s \<noteq> [] \<and> \<not> isSpace (hd s) \<and> \<not> isSpace (last s))"

text \<open>\<open>tagged s\<close>: \<open>s\<close> starts with an opening and ends with a closing angle bracket;
  \<open>blank ws\<close>: a non-empty run of white space; \<open>no_space s\<close>: no white space in \<open>s\<close>.\<close>

definition tagged :: "string \<Rightarrow> bool" where
  "tagged s = (s \<noteq> [] \<and> hd s = CHR ''<'' \<and> last s = CHR ''>'')"

definition blank :: "string \<Rightarrow> bool" where
  "blank ws = (ws \<noteq> [] \<and> list_all isSpace ws)"

definition no_space :: "string \<Rightarrow> bool" where
  "no_space s = list_all (\<lambda>c. \<not> isSpace c) s"

text \<open>Names for the parts that \<^verbatim>\<open>createRequest\<close> concatenates.\<close>

definition namespaces :: "string list \<Rightarrow> string" where
  "namespaces nss = concat (map (\<lambda>namespace. '' '' @ namespace) nss)"

definition envelope_start :: "'t SOAP \<Rightarrow> string" where
  "envelope_start soap = env_decl @ env_open @ namespaces (XMLNs soap) @ ''>''"

definition Action_element :: "'t SOAP \<Rightarrow> string" where
  "Action_element soap = Action_open @ Action soap @ Action_close"

definition Body_element :: "'t SOAP \<Rightarrow> string" where
  "Body_element soap = Body_open @ Body soap @ Body_close"

definition Username_element :: "string \<Rightarrow> string" where
  "Username_element user = Username_open @ user @ Username_close"

definition Password_element :: "string \<Rightarrow> string" where
  "Password_element digest = Password_tag @ digest @ Password_close"

definition Nonce_element :: "string \<Rightarrow> string" where
  "Nonce_element nonce64 = Nonce_tag @ nonce64 @ Nonce_close"

definition Created_element :: "string \<Rightarrow> string" where
  "Created_element timestamp = Created_tag @ timestamp @ Created_close"

text \<open>
  The token as the specification states it: the nonce is the next value of the random
  source; the timestamp is the camera time if it is set and the clock reading if not,
  plus \<open>TokenAge\<close>, in UTC and in the RFC 3339 layout; the digest is the base64 text
  of the SHA-1 hash of nonce, timestamp and password, in that order.
\<close>

definition spec_nonce :: "'t world \<Rightarrow> string" where
  "spec_nonce w = uuid_source w (uuid_reads w)"

definition spec_timestamp :: "('t, 'm) library \<Rightarrow> 't SOAP \<Rightarrow> 't world \<Rightarrow> string" where
  "spec_timestamp L soap w =
     (if time_IsZero L (CameraTime soap)
      then time_Format L (time_UTC L (time_Add L (clock_source w (clock_reads w)) (TokenAge soap)))
             RFC3339
      else time_Format L (time_UTC L (time_Add L (CameraTime soap) (TokenAge soap))) RFC3339)"

definition spec_digest :: "('t, 'm) library \<Rightarrow> string \<Rightarrow> string \<Rightarrow> string \<Rightarrow> string" where
  "spec_digest L nonce timestamp password =
     EncodeToString (sha1_Sum L (nonce @ timestamp @ password))"

fun gapfree :: "string \<Rightarrow> bool" where
  "gapfree [] = True"
| "gapfree (c # cs) = (\<not> (c = CHR ''>'' \<and> gap cs) \<and> gapfree cs)"

section \<open>A small instance of the packages, to run the model on concrete inputs\<close>

text \<open>
  Time values are seconds since 0001-01-01T00:00:00Z (the zero \<^verbatim>\<open>time.Time\<close>);
  \<open>demo_Format\<close> renders them in UTC with the proleptic Gregorian calendar. The hash is
  a stand-in of the right length, not SHA-1; the claims hold for every hash function.
\<close>

definition digit :: "int \<Rightarrow> char" where
  "digit n = ''0123456789'' ! nat (n mod 10)"

definition pad2 :: "int \<Rightarrow> string" where
  "pad2 n = [digit (n div 10), digit n]"

definition pad4 :: "int \<Rightarrow> string" where
  "pad4 n = [digit (n div 1000), digit (n div 100), digit (n div 10), digit n]"

definition civil_date :: "int \<Rightarrow> int \<Rightarrow> int \<Rightarrow> string" where
  "civil_date y m d = pad4 (if m \<le> 2 then y + 1 else y) @ ''-'' @ pad2 m @ ''-'' @ pad2 d"

definition civil_month :: "int \<Rightarrow> int \<Rightarrow> int \<Rightarrow> string" where
  "civil_month y doy mp =
     civil_date y (if mp < 10 then mp + 3 else mp - 9) (doy - (153 * mp + 2) div 5 + 1)"

definition civil_day_of_year :: "int \<Rightarrow> int \<Rightarrow> string" where
  "civil_day_of_year y doy = civil_month y doy ((5 * doy + 2) div 153)"

definition civil_year :: "int \<Rightarrow> int \<Rightarrow> int \<Rightarrow> string" where
  "civil_year era doe yoe =
     civil_day_of_year (yoe + era * 400) (doe - (365 * yoe + yoe div 4 - yoe div 100))"

definition civil_era :: "int \<Rightarrow> int \<Rightarrow> string" where
  "civil_era era doe =
     civil_year era doe ((doe - doe div 1460 + doe div 36524 - doe div 146096) div 365)"

definition civil_from_days :: "int \<Rightarrow> string" where
  "civil_from_days days = civil_era ((days + 306) div 146097) ((days + 306) mod 146097)"

definition clock_time :: "int \<Rightarrow> string" where
  "clock_time secs =
     pad2 (secs div 3600) @ '':'' @ pad2 (secs div 60 mod 60) @ '':'' @ pad2 (secs mod 60)"

definition demo_Format :: "int \<Rightarrow> string \<Rightarrow> string" where
  "demo_Format t layout =
     civil_from_days (t div 86400) @ ''T'' @ clock_time (t mod 86400) @ ''Z''"

definition demo_sha1 :: "string \<Rightarrow> string" where
  "demo_sha1 data = take 20 (rev data @ replicate 20 (CHR 0x00))"

definition demo_url_Parse :: "string \<Rightarrow> error + URL" where
  "demo_url_Parse rawURL =
     (if list_ex (\<lambda>c. (of_char c :: nat) < 32 \<or> (of_char c :: nat) = 127) rawURL
      then Inl (Error ''net/url: invalid control character in URL'')
      else Inr \<lparr>url_Scheme = takeWhile (\<lambda>c. c \<noteq> CHR '':'') rawURL, url_User = None,
                url_Rest = drop 3 (dropWhile (\<lambda>c. c \<noteq> CHR '':'') rawURL)\<rparr>)"

definition demo_url_String :: "URL \<Rightarrow> string" where
  "demo_url_String u =
     url_Scheme u @ ''://''
     @ (case url_User u of None \<Rightarrow> [] | Some (name, pass) \<Rightarrow> name @ '':'' @ pass @ ''@'')
     @ url_Rest u"

definition demo_NewRequest :: "string \<Rightarrow> string \<Rightarrow> string \<Rightarrow> error + Request" where
  "demo_NewRequest method url body =
     Inr \<lparr>req_Method = method, req_URL = url, req_Header = Map.empty, req_Body = body\<rparr>"

text \<open>The demo parser knows four documents; a tree is its list of leaf paths.\<close>

definition doc_ok :: string where
  "doc_ok = ''<Envelope><Body><SetResponse>done</SetResponse></Body></Envelope>''"

definition doc_fault12 :: string where
  \<open>doc_fault12 =
     ''<Envelope><Body><Fault><Reason><Text xml:lang="en">X</Text></Reason></Fault></Body></Envelope>''\<close>

definition doc_fault11 :: string where
  "doc_fault11 = ''<Envelope><Body><Fault><faultstring>Y</faultstring></Fault></Body></Envelope>''"

definition doc_fault_both :: string where
  \<open>doc_fault_both =
     ''<Envelope><Body><Fault><faultstring>Y</faultstring><Reason><Text xml:lang="en">X</Text></Reason></Fault></Body></Envelope>''\<close>

definition demo_documents :: "(string \<times> (string \<times> string) list) list" where
  "demo_documents =
     [(doc_ok, [(''Envelope.Body.SetResponse'', ''done'')]),
      (doc_fault12,
         [(''Envelope.Body.Fault.Reason.Text.-lang'', ''en''),
          (''Envelope.Body.Fault.Reason.Text.#text'', ''X'')]),
      (doc_fault11, [(''Envelope.Body.Fault.faultstring'', ''Y'')]),
      (doc_fault_both,
         [(''Envelope.Body.Fault.faultstring'', ''Y''),
          (''Envelope.Body.Fault.Reason.Text.-lang'', ''en''),
          (''Envelope.Body.Fault.Reason.Text.#text'', ''X'')])]"

definition demo_NewMapXml :: "string \<Rightarrow> error + (string \<times> string) list" where
  "demo_NewMapXml doc =
     (case map_of demo_documents doc of
        None \<Rightarrow> Inl (Error ''xml: syntax error'')
      | Some tree \<Rightarrow> Inr tree)"

definition demo_ValueForPathString :: "(string \<times> string) list \<Rightarrow> string \<Rightarrow> string \<times> error option" where
  "demo_ValueForPathString tree path =
     (case map_of tree path of
        None \<Rightarrow> ([], Some (Error ''ValueForPath: path not found''))
      | Some v \<Rightarrow> (v, None))"

definition demo_library :: "(int, (string \<times> string) list) library" where
  "demo_library =
     \<lparr>time_IsZero = (\<lambda>t. t = 0),
      time_Add = (\<lambda>t d. t + d div 1000000000),
      time_UTC = (\<lambda>t. t),
      time_Format = demo_Format,
      sha1_Sum = demo_sha1,
      url_Parse = demo_url_Parse,
      url_String = demo_url_String,
      http_NewRequest = demo_NewRequest,
      mxj_NewMapXml = demo_NewMapXml,
      ValueForPathString = demo_ValueForPathString\<rparr>"

text \<open>A world whose clock stands at 2021-03-04T05:06:07Z and whose camera answers every
  request with the document \<open>reply\<close>.\<close>

definition demo_world :: "string \<Rightarrow> int world" where
  "demo_world reply =
     \<lparr>uuid_source = (\<lambda>n. ''f81d4fae-7dec-11d0-a765-00a0c91e6bf6''),
      uuid_reads = 0,
      clock_source = (\<lambda>n. 63750431167 + int n),
      clock_reads = 0,
      transport = (\<lambda>user pass req. Inr \<lparr>resp_Body = Inr reply\<rparr>),
      trace = []\<rparr>"

definition demo_soap :: "int SOAP" where
  \<open>demo_soap =
     \<lparr>Body = ''<GetDeviceInformation/>'',
      XMLNs = [''xmlns:tds="http://www.onvif.org/ver10/device/wsdl"''],
      User = ''admin'', Password = ''pass'', TokenAge = 0, Action = [],
      NoDebug = True, CameraTime = 0\<rparr>\<close>

section \<open>Properties of the clean-up\<close>

text \<open>The two replacements, as recursive functions on the input.\<close>

lemma drop_takeWhile_len: "drop (length (takeWhile P xs)) xs = dropWhile P xs"
  by (induction xs) auto

lemma lt_after_ws_dropWhile:
  "lt_after_ws s \<longleftrightarrow> take 1 (dropWhile isSpace s) = ''<''"
  by (induction s) auto

lemma gap_iff:
  "gap cs \<longleftrightarrow> 0 < length (takeWhile isSpace cs)
       \<and> take 1 (drop (length (takeWhile isSpace cs)) cs) = ''<''"
  unfolding drop_takeWhile_len by (cases cs) (auto simp: lt_after_ws_dropWhile)

lemma re_tag_gap_Cons:
  "re_tag_gap (c # cs) =
     (if c = CHR ''>'' \<and> gap cs then length (takeWhile isSpace cs) + 2 else 0)"
  unfolding re_tag_gap_def gap_iff by (simp add: Let_def)

lemma Replace_spaces: "ReplaceAllString re_spaces s '' '' = collapse s"
proof (induction s rule: collapse.induct)
  case 1 show ?case by simp
next
  case (2 c cs)
  show ?case
  proof (cases "isSpace c")
    case True
    then have "re_spaces (c # cs) = Suc (length (takeWhile isSpace cs))" by (simp add: re_spaces_def)
    moreover have "drop (Suc (length (takeWhile isSpace cs))) (c # cs) = dropWhile isSpace cs"
      by (simp add: drop_takeWhile_len)
    ultimately show ?thesis using 2 True by simp
  next
    case False
    then have "re_spaces (c # cs) = 0" by (simp add: re_spaces_def)
    then show ?thesis using 2 False by simp
  qed
qed

lemma Replace_tag_gap: "ReplaceAllString re_tag_gap s ''><'' = strip s"
proof (induction s rule: strip.induct)
  case 1 show ?case by simp
next
  case (2 c cs)
  define d where "d = dropWhile isSpace cs"
  define n where "n = length (takeWhile isSpace cs)"
  let ?m = "c = CHR ''>'' \<and> gap cs"
  have re: "re_tag_gap (c # cs) = (if ?m then n + 2 else 0)"
    unfolding n_def by (rule re_tag_gap_Cons)
  have st: "strip (c # cs) = (if ?m then CHR ''>'' # CHR ''<'' # strip (tl d) else c # strip cs)"
    unfolding d_def by (rule strip.simps)
  show ?case
  proof (cases ?m)
    case True
    have "drop (n + 2) (c # cs) = tl (drop n cs)"
      by (simp add: drop_Suc tl_drop)
    then have dr: "drop (n + 2) (c # cs) = tl d"
      unfolding n_def d_def by (simp only: drop_takeWhile_len)
    have ih: "ReplaceAllString re_tag_gap (tl d) ''><'' = strip (tl d)"
      using "2.IH"(1) True unfolding d_def by blast
    have re': "re_tag_gap (c # cs) = n + 2"
      unfolding re using True by simp
    have "ReplaceAllString re_tag_gap (c # cs) ''><''
        = ''><'' @ ReplaceAllString re_tag_gap (drop (re_tag_gap (c # cs)) (c # cs)) ''><''"
      using re' by simp
    then have A: "ReplaceAllString re_tag_gap (c # cs) ''><'' = ''><'' @ strip (tl d)"
      by (simp only: re' dr ih)
    have B: "strip (c # cs) = CHR ''>'' # CHR ''<'' # strip (tl d)"
      by (subst st, rule if_P, rule True)
    show ?thesis by (simp only: A B) simp
  next
    case False
    have ih: "ReplaceAllString re_tag_gap cs ''><'' = strip cs"
      using "2.IH"(2) False unfolding d_def by blast
    have re': "re_tag_gap (c # cs) = 0"
      unfolding re using False by simp
    have A: "ReplaceAllString re_tag_gap (c # cs) ''><'' = c # strip cs"
      using re' ih by simp
    have B: "strip (c # cs) = c # strip cs"
      by (subst st, rule if_not_P, rule False)
    show ?thesis by (simp only: A B)
  qed
qed

lemma clean_eq: "clean s = collapse (strip s)"
  by (simp add: clean_def Replace_spaces Replace_tag_gap)

lemma strip_gapfree_id: "gapfree s \<Longrightarrow> strip s = s"
  by (induction s) auto

lemma strip_Cons_hd: "\<exists>ys. strip (c # cs) = c # ys"
  by simp

lemma lt_after_ws_strip: "lt_after_ws (strip s) = lt_after_ws s"
proof (induction s)
  case Nil show ?case by simp
next
  case (Cons x xs)
  obtain ys where ys: "strip (x # xs) = x # ys" using strip_Cons_hd by blast
  show ?case
  proof (cases "isSpace x")
    case True
    then have "x \<noteq> CHR ''>''" by (auto simp: isSpace_def)
    then show ?thesis using Cons True by simp
  next
    case False
    then show ?thesis unfolding ys by simp
  qed
qed

lemma gap_strip: "gap (strip s) = gap s"
proof (cases s)
  case Nil then show ?thesis by simp
next
  case (Cons x xs)
  show ?thesis
  proof (cases "isSpace x")
    case True
    then have "x \<noteq> CHR ''>''" by (auto simp: isSpace_def)
    then show ?thesis using Cons True by (simp add: lt_after_ws_strip)
  next
    case False
    then show ?thesis using Cons by auto
  qed
qed

lemma not_isSpace_lt [simp]: "\<not> isSpace (CHR ''<'')" "\<not> isSpace (CHR ''>'')" "isSpace (CHR '' '')"
  by (simp_all add: isSpace_def)

lemma gapfree_strip: "gapfree (strip s)"
  by (induction s rule: strip.induct) (auto simp: gap_strip)

lemma gapfree_dropWhile: "gapfree s \<Longrightarrow> gapfree (dropWhile P s)"
  by (induction s) auto

lemma collapse_head_nonspace:
  "s = [] \<or> \<not> isSpace (hd s) \<Longrightarrow> collapse s = [] \<or> \<not> isSpace (hd (collapse s))"
  by (cases s) auto

lemma dropWhile_head: "s = [] \<or> \<not> P (hd s) \<Longrightarrow> dropWhile P s = s"
  by (cases s) auto

lemma dropWhile_head_nonspace: "dropWhile P s = [] \<or> \<not> P (hd (dropWhile P s))"
  using hd_dropWhile by blast

lemma lt_after_ws_nonspace_head:
  "s = [] \<or> \<not> isSpace (hd s) \<Longrightarrow> lt_after_ws s \<longleftrightarrow> s \<noteq> [] \<and> hd s = CHR ''<''"
  by (cases s) auto

lemma lt_after_ws_dropWhile_eq: "lt_after_ws (dropWhile isSpace s) = lt_after_ws s"
  by (induction s) auto

lemma lt_after_ws_collapse: "lt_after_ws (collapse s) = lt_after_ws s"
proof (induction s rule: collapse.induct)
  case 1 show ?case by simp
next
  case (2 c cs)
  show ?case
  proof (cases "isSpace c")
    case True
    then show ?thesis using 2 by (simp add: lt_after_ws_dropWhile_eq)
  next
    case False
    then show ?thesis by simp
  qed
qed

lemma gap_collapse: "gap (collapse s) = gap s"
proof (cases s)
  case Nil then show ?thesis by simp
next
  case (Cons x xs)
  show ?thesis
  proof (cases "isSpace x")
    case True
    then show ?thesis using Cons
      by (simp add: lt_after_ws_collapse lt_after_ws_dropWhile_eq)
  next
    case False
    then show ?thesis using Cons by simp
  qed
qed

lemma gapfree_collapse: "gapfree s \<Longrightarrow> gapfree (collapse s)"
proof (induction s rule: collapse.induct)
  case 1 show ?case by simp
next
  case (2 c cs)
  show ?case
  proof (cases "isSpace c")
    case True
    then show ?thesis using 2 by (simp add: gapfree_dropWhile)
  next
    case False
    then show ?thesis using 2 by (simp add: gap_collapse)
  qed
qed

lemma collapse_idem: "collapse (collapse s) = collapse s"
proof (induction s rule: collapse.induct)
  case 1 show ?case by simp
next
  case (2 c cs)
  show ?case
  proof (cases "isSpace c")
    case True
    have "dropWhile isSpace (collapse (dropWhile isSpace cs)) = collapse (dropWhile isSpace cs)"
      by (intro dropWhile_head collapse_head_nonspace dropWhile_head_nonspace)
    then show ?thesis using 2 True by simp
  next
    case False
    then show ?thesis using 2 by simp
  qed
qed

lemma lt_after_ws_append:
  "\<exists>x\<in>set cs. \<not> isSpace x \<Longrightarrow> lt_after_ws (cs @ B) = lt_after_ws cs"
  by (induction cs) auto

lemma lt_after_ws_append_nonspace:
  "B = [] \<or> \<not> isSpace (hd B) \<Longrightarrow> \<not> lt_after_ws cs \<Longrightarrow> lt_after_ws (cs @ B)
     \<Longrightarrow> (\<forall>x\<in>set cs. isSpace x)"
  by (induction cs) (auto split: if_splits)

lemma gap_append:
  assumes "cs = [] \<or> \<not> isSpace (last cs)" and "B = [] \<or> \<not> isSpace (hd B)"
  shows "gap (cs @ B) = gap cs"
proof (cases cs)
  case Nil
  then show ?thesis using assms(2) by (cases B) auto
next
  case (Cons x xs)
  show ?thesis
  proof (cases xs)
    case Nil
    then show ?thesis using assms Cons by simp
  next
    case (Cons y ys)
    then have "last xs \<in> set xs" and "\<not> isSpace (last xs)"
      using assms(1) \<open>cs = x # xs\<close> by auto
    then have "lt_after_ws (xs @ B) = lt_after_ws xs"
      by (intro lt_after_ws_append) blast
    then show ?thesis using \<open>cs = x # xs\<close> by simp
  qed
qed

lemma strip_append:
  "A = [] \<or> \<not> isSpace (last A) \<Longrightarrow> B = [] \<or> \<not> isSpace (hd B)
    \<Longrightarrow> strip (A @ B) = strip A @ strip B"
proof (induction A rule: strip.induct)
  case 1 show ?case by simp
next
  case (2 c cs)
  have cs_ok: "cs = [] \<or> \<not> isSpace (last cs)"
    using "2.prems"(1) by (cases cs) auto
  have g: "gap (cs @ B) = gap cs"
    using cs_ok "2.prems"(2) by (rule gap_append)
  show ?case
  proof (cases "c = CHR ''>'' \<and> gap cs")
    case True
    define d where "d = dropWhile isSpace cs"
    have "cs \<noteq> []" using True by auto
    then have l: "last cs \<in> set cs" "\<not> isSpace (last cs)" using cs_ok by auto
    then have dapp: "dropWhile isSpace (cs @ B) = d @ B"
      unfolding d_def by (intro dropWhile_append1)
    have dne: "d \<noteq> []"
      unfolding d_def using l by auto
    have tlapp: "tl (dropWhile isSpace (cs @ B)) = tl d @ B"
      unfolding dapp using dne by simp
    have "tl d = [] \<or> \<not> isSpace (last (tl d))"
    proof (cases "tl d")
      case Nil then show ?thesis by simp
    next
      case (Cons y ys)
      then have "last (tl d) = last d" using dne by (metis last_tl list.distinct(1))
      also have "\<dots> = last cs"
        unfolding d_def using dne d_def
        by (metis append_Nil2 last_appendR takeWhile_dropWhile_id)
      finally show ?thesis using l by simp
    qed
    then have ih: "strip (tl d @ B) = strip (tl d) @ strip B"
      using "2.IH"(1) True "2.prems"(2) unfolding d_def by blast
    have "strip ((c # cs) @ B) = CHR ''>'' # CHR ''<'' # strip (tl d @ B)"
      using True by (simp add: g tlapp)
    moreover have "strip (c # cs) = CHR ''>'' # CHR ''<'' # strip (tl d)"
      using True unfolding d_def by simp
    ultimately show ?thesis using ih by simp
  next
    case False
    then have ih: "strip (cs @ B) = strip cs @ strip B"
      using "2.IH"(2) cs_ok "2.prems"(2) by blast
    have "strip ((c # cs) @ B) = c # strip (cs @ B)"
      using False by (auto simp: g)
    moreover have "strip (c # cs) = c # strip cs"
      by (subst strip.simps, rule if_not_P, rule False)
    ultimately show ?thesis using ih by simp
  qed
qed

lemma collapse_append:
  "B = [] \<or> \<not> isSpace (hd B) \<Longrightarrow> collapse (A @ B) = collapse A @ collapse B"
proof (induction A rule: collapse.induct)
  case 1 show ?case by simp
next
  case (2 c cs)
  show ?case
  proof (cases "isSpace c")
    case True
    have "dropWhile isSpace (cs @ B) = dropWhile isSpace cs @ B"
    proof (cases "\<forall>x\<in>set cs. isSpace x")
      case True
      then have "dropWhile isSpace (cs @ B) = dropWhile isSpace B"
        by (simp add: dropWhile_append2)
      also have "\<dots> = B" using "2.prems" by (rule dropWhile_head)
      finally show ?thesis using True by simp
    next
      case False
      then show ?thesis by (auto simp: dropWhile_append1)
    qed
    then show ?thesis using 2 True by simp
  next
    case False
    then show ?thesis using 2 by simp
  qed
qed

lemma strip_hd: "s = [] \<or> \<not> isSpace (hd s) \<Longrightarrow> strip s = [] \<or> \<not> isSpace (hd (strip s))"
  by (cases s) auto

lemma clean_append:
  "A = [] \<or> \<not> isSpace (last A) \<Longrightarrow> B = [] \<or> \<not> isSpace (hd B)
    \<Longrightarrow> clean (A @ B) = clean A @ clean B"
  by (simp add: clean_eq strip_append collapse_append strip_hd)

lemma clean_no_space: "\<forall>c\<in>set s. \<not> isSpace c \<Longrightarrow> clean s = s"
proof -
  assume a: "\<forall>c\<in>set s. \<not> isSpace c"
  have "\<forall>c\<in>set s. \<not> isSpace c \<Longrightarrow> strip s = s"
  proof (induction s)
    case Nil show ?case by simp
  next
    case (Cons x xs)
    then have "\<not> gap xs" by (cases xs) auto
    then show ?case using Cons by simp
  qed
  moreover have "\<forall>c\<in>set s. \<not> isSpace c \<Longrightarrow> collapse s = s"
    by (induction s) auto
  ultimately show ?thesis using a by (simp add: clean_eq)
qed


lemma clean_fixed: "clean (clean s) = clean s"
proof -
  have "gapfree (collapse (strip s))"
    by (intro gapfree_collapse gapfree_strip)
  then have "strip (collapse (strip s)) = collapse (strip s)"
    by (rule strip_gapfree_id)
  then show ?thesis
    by (simp add: clean_eq collapse_idem)
qed

section \<open>The structure of the built envelope\<close>

lemma foldl_namespaces:
  "foldl (\<lambda>request namespace. request @ CHR '' '' # namespace) r nss = r @ namespaces nss"
  by (induction nss arbitrary: r) (simp_all add: namespaces_def)

lemma tight_append: "tight A \<Longrightarrow> tight B \<Longrightarrow> tight (A @ B)"
  by (simp add: tight_def)

lemma tight_appendI: "A \<noteq> [] \<Longrightarrow> \<not> isSpace (hd A) \<Longrightarrow> B \<noteq> [] \<Longrightarrow> \<not> isSpace (last B) \<Longrightarrow> tight (A @ X @ B)"
  by (simp add: tight_def)

lemma clean_append_tight: "tight A \<Longrightarrow> tight B \<Longrightarrow> clean (A @ B) = clean A @ clean B"
  by (rule clean_append) (simp_all add: tight_def)

lemma clean_append_tight3: "A \<noteq> [] \<Longrightarrow> \<not> isSpace (last A) \<Longrightarrow> tight B \<Longrightarrow> clean (A @ B) = clean A @ clean B"
  by (rule clean_append) (simp_all add: tight_def)

lemma tight_envelope_start: "envelope_start soap \<noteq> []" "\<not> isSpace (last (envelope_start soap))"
  by (simp_all add: envelope_start_def)

lemma tight_Header_open: "tight Header_open" "tight Header_close" "tight Envelope_close"
  by (simp_all add: tight_def Header_open_def Header_close_def Envelope_close_def)

lemma tight_Action_element: "tight (Action_element soap)"
  by (simp add: tight_def Action_element_def Action_open_def Action_close_def)

lemma tight_Body_element: "tight (Body_element soap)"
  by (simp add: tight_def Body_element_def Body_open_def Body_close_def)

lemma tight_token: "tight (fst (createUserToken L soap w))"
  by (simp add: tight_def createUserToken_def Security_tag_def Security_close_def Let_def
      split: prod.splits)

lemma clean_literals: "clean Header_open = Header_open" "clean Header_close = Header_close"
  "clean Envelope_close = Envelope_close"
  by (simp_all add: clean_no_space isSpace_def Header_open_def Header_close_def Envelope_close_def)

lemma createRequest_raw:
  "fst (createRequest L soap w) =
     clean (envelope_start soap
        @ (if Action soap \<noteq> [] \<or> User soap \<noteq> []
           then Header_open
                @ (if Action soap \<noteq> [] then Action_element soap else [])
                @ (if User soap \<noteq> [] then fst (createUserToken L soap w) else [])
                @ Header_close
           else [])
        @ Body_element soap @ Envelope_close)"
  by (simp add: createRequest_def clean_def Let_def foldl_namespaces envelope_start_def
      Action_element_def Body_element_def split: prod.splits)

lemma createRequest_world:
  "snd (createRequest L soap w) = (if User soap \<noteq> [] then snd (createUserToken L soap w) else w)"
  by (simp add: createRequest_def Let_def split: prod.splits)

lemma createRequest_parts:
  "fst (createRequest L soap w) =
     clean (envelope_start soap)
     @ (if Action soap \<noteq> [] \<or> User soap \<noteq> []
        then Header_open
             @ (if Action soap \<noteq> [] then clean (Action_element soap) else [])
             @ (if User soap \<noteq> [] then clean (fst (createUserToken L soap w)) else [])
             @ Header_close
        else [])
     @ clean (Body_element soap) @ Envelope_close"
proof -
  note t = tight_Header_open tight_Action_element tight_Body_element tight_token tight_append
  have tail: "clean (Body_element soap @ Envelope_close)
      = clean (Body_element soap) @ Envelope_close"
    by (simp add: clean_append_tight t clean_literals)
  have tb: "tight (Body_element soap @ Envelope_close)"
    by (intro t)
  show ?thesis
    unfolding createRequest_raw
    by (simp add: clean_append_tight3 clean_append_tight tight_envelope_start t clean_literals tail)
qed


section \<open>The security token\<close>

lemma createUserToken_text:
  "fst (createUserToken L soap w) =
     Security_tag
     @ indent_a @ UsernameToken_tag
     @ indent_b @ Username_element (User soap)
     @ indent_b @ Password_element
                    (spec_digest L (spec_nonce w) (spec_timestamp L soap w) (Password soap))
     @ indent_b @ Nonce_element (EncodeToString (spec_nonce w))
     @ indent_b @ Created_element (spec_timestamp L soap w)
     @ indent_c @ UsernameToken_close
     @ indent_d @ Security_close"
  by (simp add: createUserToken_def uuid_New_def time_Now_def spec_nonce_def spec_timestamp_def
      spec_digest_def Username_element_def Password_element_def Nonce_element_def
      Created_element_def Let_def split: prod.splits)

lemma createUserToken_world:
  "snd (createUserToken L soap w) =
     (if time_IsZero L (CameraTime soap)
      then w\<lparr>uuid_reads := Suc (uuid_reads w), clock_reads := Suc (clock_reads w)\<rparr>
      else w\<lparr>uuid_reads := Suc (uuid_reads w)\<rparr>)"
  by (simp add: createUserToken_def uuid_New_def time_Now_def Let_def split: prod.splits)

lemma gap_append_nonspace:
  assumes ex: "\<exists>x\<in>set cs. \<not> isSpace x"
  shows "gap (cs @ B) = gap cs"
proof (cases cs)
  case Nil
  then show ?thesis using ex by simp
next
  case (Cons a list)
  show ?thesis
  proof (cases "isSpace a")
    case True
    then have "\<exists>x\<in>set list. \<not> isSpace x" using ex Cons by auto
    then have "lt_after_ws (list @ B) = lt_after_ws list" by (rule lt_after_ws_append)
    then show ?thesis using Cons by simp
  next
    case False
    then show ?thesis using Cons by simp
  qed
qed

lemma lt_after_ws_blank: "list_all isSpace ws \<Longrightarrow> lt_after_ws (ws @ CHR ''<'' # Y)"
  by (induction ws) auto

lemma gap_blank: "blank ws \<Longrightarrow> gap (ws @ CHR ''<'' # Y)"
  by (cases ws) (auto simp: blank_def lt_after_ws_blank)

lemma dropWhile_blank: "list_all isSpace ws \<Longrightarrow> dropWhile isSpace (ws @ CHR ''<'' # Y) = CHR ''<'' # Y"
  by (induction ws) auto

lemma gap_hd_dropWhile: "gap s \<Longrightarrow> hd (dropWhile isSpace s) = CHR ''<''"
proof -
  have "lt_after_ws t \<Longrightarrow> hd (dropWhile isSpace t) = CHR ''<''" for t
    by (induction t) (auto split: if_splits)
  then show "gap s \<Longrightarrow> hd (dropWhile isSpace s) = CHR ''<''"
    by (cases s) auto
qed

lemma strip_gap_join:
  assumes "blank ws"
  shows "X \<noteq> [] \<Longrightarrow> last X = CHR ''>'' \<Longrightarrow>
     strip (X @ ws @ CHR ''<'' # Y) = strip X @ CHR ''<'' # strip Y"
proof (induction X rule: strip.induct)
  case 1 then show ?case by simp
next
  case (2 c cs)
  let ?B = "ws @ CHR ''<'' # Y"
  show ?case
  proof (cases "cs = []")
    case True
    then have c: "c = CHR ''>''" using "2.prems" by simp
    have "strip (c # ?B) = CHR ''>'' # CHR ''<'' # strip (tl (dropWhile isSpace ?B))"
      using c gap_blank [OF assms, of Y] by simp
    also have "tl (dropWhile isSpace ?B) = Y"
      using assms by (simp add: dropWhile_blank blank_def)
    finally show ?thesis using True c by simp
  next
    case False
    then have l: "last cs = CHR ''>''" using "2.prems" by simp
    have "last cs \<in> set cs" using False by simp
    moreover have "\<not> isSpace (last cs)" unfolding l by (simp add: isSpace_def)
    ultimately have ex: "\<exists>x\<in>set cs. \<not> isSpace x" by blast
    have g: "gap (cs @ ?B) = gap cs"
      using ex by (rule gap_append_nonspace)
    show ?thesis
    proof (cases "c = CHR ''>'' \<and> gap cs")
      case True
      define d where "d = dropWhile isSpace cs"
      have dapp: "dropWhile isSpace (cs @ ?B) = d @ ?B"
        unfolding d_def using ex by (auto simp: dropWhile_append1)
      have dne: "d \<noteq> []" unfolding d_def using ex by auto
      have hd_d: "hd d = CHR ''<''"
        using True unfolding d_def by (simp add: gap_hd_dropWhile)
      have "last d = last cs"
        unfolding d_def using dne d_def
        by (metis append_Nil2 last_appendR takeWhile_dropWhile_id)
      then have ld: "last d = CHR ''>''" using l by simp
      have tne: "tl d \<noteq> []"
        using dne hd_d ld by (cases d) (auto split: if_splits)
      then have lt: "last (tl d) = CHR ''>''"
        using ld dne by (metis last_tl list.distinct(1))
      have ih: "strip (tl d @ ?B) = strip (tl d) @ CHR ''<'' # strip Y"
        using "2.IH"(1) True tne lt unfolding d_def by blast
      have "strip ((c # cs) @ ?B) = CHR ''>'' # CHR ''<'' # strip (tl d @ ?B)"
        using True dne by (simp add: g dapp)
      moreover have "strip (c # cs) = CHR ''>'' # CHR ''<'' # strip (tl d)"
        using True unfolding d_def by simp
      ultimately show ?thesis using ih by simp
    next
      case no: False
      then have ih: "strip (cs @ ?B) = strip cs @ CHR ''<'' # strip Y"
        using "2.IH"(2) False l by blast
      have "strip ((c # cs) @ ?B) = c # strip (cs @ ?B)"
        using no by (auto simp: g)
      moreover have "strip (c # cs) = c # strip cs"
        by (subst strip.simps, rule if_not_P, rule no)
      ultimately show ?thesis using ih by simp
    qed
  qed
qed

lemma clean_gap_join:
  assumes "tagged X" "blank ws" "tagged Y"
  shows "clean (X @ ws @ Y) = clean X @ clean Y"
proof -
  obtain Y' where Y: "Y = CHR ''<'' # Y'"
    using assms(3) by (cases Y) (auto simp: tagged_def)
  have "strip (X @ ws @ Y) = strip X @ strip Y"
    unfolding Y using strip_gap_join [OF assms(2), of X Y'] assms(1)
    by (simp add: tagged_def)
  moreover have "strip Y \<noteq> []" "\<not> isSpace (hd (strip Y))"
    unfolding Y by simp_all
  ultimately show ?thesis
    by (simp add: clean_eq collapse_append)
qed

lemma tagged_join: "tagged X \<Longrightarrow> tagged Y \<Longrightarrow> tagged (X @ M @ Y)"
  by (simp add: tagged_def)

lemma tagged_tight: "tagged X \<Longrightarrow> tight X"
  by (simp add: tagged_def tight_def)

lemma encodeStd_no_space: "i < 64 \<Longrightarrow> \<not> isSpace (encodeStd ! i)"
proof -
  have "list_all (\<lambda>c. \<not> isSpace c) encodeStd"
    by (simp add: encodeStd_def isSpace_def)
  moreover have "length encodeStd = 64"
    by (simp add: encodeStd_def)
  ultimately show "i < 64 \<Longrightarrow> \<not> isSpace (encodeStd ! i)"
    by (simp add: list_all_length)
qed

lemma eq_no_space: "\<not> isSpace (CHR ''='')"
  by (simp add: isSpace_def)

lemma encode_groups_no_space:
  "\<forall>b\<in>set bs. b < 256 \<Longrightarrow> no_space (encode_groups bs)"
proof (induction bs rule: encode_groups.induct)
  case 1 show ?case by (simp add: no_space_def)
next
  case (2 a)
  then have "a div 4 < 64" "a mod 4 * 16 < 64" by auto
  then show ?case by (simp add: no_space_def encodeStd_no_space eq_no_space)
next
  case (3 a b)
  then have "a div 4 < 64" "a mod 4 * 16 + b div 16 < 64" "b mod 16 * 4 < 64" by auto
  then show ?case by (simp add: no_space_def encodeStd_no_space eq_no_space)
next
  case (4 a b c rest)
  then have "a div 4 < 64" "a mod 4 * 16 + b div 16 < 64" "b mod 16 * 4 + c div 64 < 64" "c mod 64 < 64"
    by auto
  moreover have "no_space (encode_groups rest)" using 4 by simp
  ultimately show ?case by (simp add: no_space_def encodeStd_no_space)
qed

lemma EncodeToString_no_space: "no_space (EncodeToString src)"
proof -
  have "\<forall>b\<in>set (map of_char src :: nat list). b < 256"
    by auto
  then show ?thesis unfolding EncodeToString_def by (rule encode_groups_no_space)
qed

lemma tagged_tags:
  "tagged Security_tag" "tagged UsernameToken_tag" "tagged UsernameToken_close"
  "tagged Security_close" "tagged (Username_element u)" "tagged (Password_element d)"
  "tagged (Nonce_element n)" "tagged (Created_element t)"
  by (simp_all add: tagged_def Security_tag_def UsernameToken_tag_def UsernameToken_close_def
      Security_close_def Username_element_def Username_open_def Username_close_def
      Password_element_def Password_tag_def Password_close_def Nonce_element_def Nonce_tag_def
      Nonce_close_def Created_element_def Created_tag_def Created_close_def)

lemma blank_indents: "blank indent_a" "blank indent_b" "blank indent_c" "blank indent_d"
  by (simp_all add: blank_def indent_a_def indent_b_def indent_c_def indent_d_def isSpace_def)

lemma no_space_clean: "no_space s \<Longrightarrow> clean s = s"
  by (rule clean_no_space) (simp add: no_space_def list_all_iff)

lemma clean_Security_tag: "clean Security_tag = Security_tag"
  by (simp add: Security_tag_def clean_eq isSpace_def)

lemma clean_Password_tag: "clean Password_tag = Password_tag"
  by (simp add: Password_tag_def clean_eq isSpace_def)

lemma clean_Nonce_tag: "clean Nonce_tag = Nonce_tag"
  by (simp add: Nonce_tag_def clean_eq isSpace_def)

lemma clean_Created_tag: "clean Created_tag = Created_tag"
  by (simp add: Created_tag_def clean_eq isSpace_def)

lemma clean_plain_tags:
  "clean UsernameToken_tag = UsernameToken_tag" "clean UsernameToken_close = UsernameToken_close"
  "clean Security_close = Security_close"
  by (simp_all add: no_space_clean no_space_def UsernameToken_tag_def UsernameToken_close_def
      Security_close_def isSpace_def)

lemma tight_no_space_close:
  "no_space d \<Longrightarrow> tagged c \<Longrightarrow> no_space c \<Longrightarrow> tight (d @ c) \<and> clean (d @ c) = d @ c"
proof -
  assume d: "no_space d" and c: "tagged c" "no_space c"
  have ns: "no_space (d @ c)" using d c by (simp add: no_space_def)
  have "d @ c \<noteq> []" using c by (simp add: tagged_def)
  moreover have "\<not> isSpace (hd (d @ c))"
    using ns \<open>d @ c \<noteq> []\<close> by (cases "d @ c") (auto simp: no_space_def)
  moreover have "\<not> isSpace (last (d @ c))"
    using c by (simp add: tagged_def isSpace_def)
  ultimately show ?thesis using ns by (simp add: tight_def no_space_clean)
qed

lemma tagged_no_space_closes:
  "tagged Password_close" "no_space Password_close" "tagged Nonce_close" "no_space Nonce_close"
  "tagged Created_close" "no_space Created_close" "tagged Username_close" "no_space Username_close"
  by (simp_all add: tagged_def no_space_def isSpace_def Password_close_def Nonce_close_def
      Created_close_def Username_close_def)

lemma tight_tags: "tight Password_tag" "tight Nonce_tag" "tight Created_tag" "tight Username_open"
  by (simp_all add: tight_def isSpace_def Password_tag_def Nonce_tag_def Created_tag_def
      Username_open_def)

lemma clean_Password_element: "no_space d \<Longrightarrow> clean (Password_element d) = Password_element d"
  unfolding Password_element_def
  using tight_no_space_close [of d Password_close]
  by (simp add: clean_append_tight tight_tags tagged_no_space_closes clean_Password_tag)

lemma clean_Nonce_element: "no_space n \<Longrightarrow> clean (Nonce_element n) = Nonce_element n"
  unfolding Nonce_element_def
  using tight_no_space_close [of n Nonce_close]
  by (simp add: clean_append_tight tight_tags tagged_no_space_closes clean_Nonce_tag)

lemma clean_Created_element: "no_space t \<Longrightarrow> clean (Created_element t) = Created_element t"
  unfolding Created_element_def
  using tight_no_space_close [of t Created_close]
  by (simp add: clean_append_tight tight_tags tagged_no_space_closes clean_Created_tag)

lemma clean_Username_element: "no_space u \<Longrightarrow> clean (Username_element u) = Username_element u"
  by (rule no_space_clean)
    (simp add: Username_element_def no_space_def Username_open_def Username_close_def isSpace_def)

lemma clean_token_template:
  assumes "no_space d" "no_space n"
  shows "clean (Security_tag
     @ indent_a @ UsernameToken_tag
     @ indent_b @ Username_element u
     @ indent_b @ Password_element d
     @ indent_b @ Nonce_element n
     @ indent_b @ Created_element t
     @ indent_c @ UsernameToken_close
     @ indent_d @ Security_close)
   = Security_tag @ UsernameToken_tag @ clean (Username_element u) @ Password_element d
     @ Nonce_element n @ clean (Created_element t) @ UsernameToken_close @ Security_close"
proof -
  note tg = tagged_tags tagged_join
  have 1: "clean (UsernameToken_close @ indent_d @ Security_close)
      = UsernameToken_close @ Security_close"
    by (simp add: clean_gap_join tg blank_indents clean_plain_tags)
  have 2: "clean (Created_element t @ indent_c @ UsernameToken_close @ indent_d @ Security_close)
      = clean (Created_element t) @ UsernameToken_close @ Security_close"
    by (subst clean_gap_join) (simp_all add: tg blank_indents 1)
  have 3: "clean (Nonce_element n @ indent_b @ Created_element t @ indent_c
        @ UsernameToken_close @ indent_d @ Security_close)
      = Nonce_element n @ clean (Created_element t) @ UsernameToken_close @ Security_close"
    by (subst clean_gap_join) (simp_all add: tg blank_indents 2 clean_Nonce_element assms)
  have 4: "clean (Password_element d @ indent_b @ Nonce_element n @ indent_b @ Created_element t
        @ indent_c @ UsernameToken_close @ indent_d @ Security_close)
      = Password_element d @ Nonce_element n @ clean (Created_element t)
        @ UsernameToken_close @ Security_close"
    by (subst clean_gap_join) (simp_all add: tg blank_indents 3 clean_Password_element assms)
  have 5: "clean (Username_element u @ indent_b @ Password_element d @ indent_b @ Nonce_element n
        @ indent_b @ Created_element t @ indent_c @ UsernameToken_close @ indent_d @ Security_close)
      = clean (Username_element u) @ Password_element d @ Nonce_element n
        @ clean (Created_element t) @ UsernameToken_close @ Security_close"
    by (subst clean_gap_join) (simp_all add: tg blank_indents 4)
  have 6: "clean (UsernameToken_tag @ indent_b @ Username_element u @ indent_b @ Password_element d
        @ indent_b @ Nonce_element n @ indent_b @ Created_element t @ indent_c
        @ UsernameToken_close @ indent_d @ Security_close)
      = UsernameToken_tag @ clean (Username_element u) @ Password_element d @ Nonce_element n
        @ clean (Created_element t) @ UsernameToken_close @ Security_close"
    by (subst clean_gap_join) (simp_all add: tg blank_indents 5 clean_plain_tags)
  show ?thesis
    by (subst clean_gap_join) (simp_all add: tg blank_indents 6 clean_Security_tag)
qed

lemma spec_digest_no_space: "no_space (spec_digest L n t p)"
  by (simp add: spec_digest_def EncodeToString_no_space)

lemma clean_token:
  "clean (fst (createUserToken L soap w)) =
     Security_tag @ UsernameToken_tag @ clean (Username_element (User soap))
     @ Password_element (spec_digest L (spec_nonce w) (spec_timestamp L soap w) (Password soap))
     @ Nonce_element (EncodeToString (spec_nonce w))
     @ clean (Created_element (spec_timestamp L soap w))
     @ UsernameToken_close @ Security_close"
  unfolding createUserToken_text
  by (rule clean_token_template) (simp_all add: spec_digest_no_space EncodeToString_no_space)

section \<open>The stages of \<^verbatim>\<open>SendRequest\<close>\<close>

lemma createUserToken_keeps [simp]:
  "trace (snd (createUserToken L soap w)) = trace w"
  "transport (snd (createUserToken L soap w)) = transport w"
  by (simp_all add: createUserToken_world)

lemma createRequest_keeps [simp]:
  "trace (snd (createRequest L soap w)) = trace w"
  "transport (snd (createRequest L soap w)) = transport w"
  by (simp_all add: createRequest_world)

lemma emit_keeps [simp]:
  "transport (emit e w) = transport w" "trace (emit e w) = trace w @ [e]"
  by (simp_all add: emit_def)


lemma SendRequest_result:
  "fst (SendRequest L soap xaddr w) =
     (case url_Parse L xaddr of
        Inl err \<Rightarrow> (None, Some err)
      | Inr u \<Rightarrow>
          (case http_NewRequest L ''POST''
                  (url_String L (if User soap \<noteq> []
                                 then u\<lparr>url_User := Some (User soap, Password soap)\<rparr> else u))
                  (fst (createRequest L soap w)) of
             Inl err \<Rightarrow> (None, Some err)
           | Inr req \<Rightarrow>
               (case transport w (User soap) (Password soap)
                       (req\<lparr>req_Header := (req_Header req)
                          (''Content-Type'' \<mapsto> ''application/soap+xml'', ''Charset'' \<mapsto> ''utf-8'')\<rparr>) of
                  Inl err \<Rightarrow> (None, Some err)
                | Inr resp \<Rightarrow>
                    (case resp_Body resp of
                       Inl err \<Rightarrow> (None, Some err)
                     | Inr responseBody \<Rightarrow>
                         (case mxj_NewMapXml L responseBody of
                            Inl err \<Rightarrow> (None, Some err)
                          | Inr mapXML \<Rightarrow>
                              (if fst (ValueForPathString L mapXML
                                        ''Envelope.Body.Fault.Reason.Text.#text'') \<noteq> []
                               then (None, Some (errors_New (fst (ValueForPathString L mapXML
                                        ''Envelope.Body.Fault.Reason.Text.#text''))))
                               else if fst (ValueForPathString L mapXML
                                        ''Envelope.Body.Fault.faultstring'') \<noteq> []
                               then (None, Some (errors_New (fst (ValueForPathString L mapXML
                                        ''Envelope.Body.Fault.faultstring''))))
                               else (Some mapXML, None)))))))"
proof -
  obtain request w1 where cr: "createRequest L soap w = (request, w1)"
    by (cases "createRequest L soap w")
  have tr: "transport w1 = transport w"
    using createRequest_keeps(2) [of L soap w] cr by simp
  show ?thesis
  proof (cases "url_Parse L xaddr")
    case (Inl err)
    then show ?thesis using cr by (simp add: SendRequest_def)
  next
    case u: (Inr u)
    define u' where "u' = (if User soap \<noteq> []
                           then u\<lparr>url_User := Some (User soap, Password soap)\<rparr> else u)"
    show ?thesis
    proof (cases "http_NewRequest L ''POST'' (url_String L u') request")
      case (Inl err)
      then show ?thesis using cr u unfolding u'_def by (simp add: SendRequest_def Let_def)
    next
      case req: (Inr req)
      define req' where "req' = req\<lparr>req_Header := (req_Header req)
            (''Content-Type'' \<mapsto> ''application/soap+xml'', ''Charset'' \<mapsto> ''utf-8'')\<rparr>"
      show ?thesis
      proof (cases "transport w (User soap) (Password soap) req'")
        case (Inl err)
        then show ?thesis using cr u req tr unfolding u'_def req'_def
          by (simp add: SendRequest_def Let_def)
      next
        case resp: (Inr resp)
        show ?thesis
        proof (cases "resp_Body resp")
          case (Inl err)
          then show ?thesis using cr u req tr resp unfolding u'_def req'_def
            by (simp add: SendRequest_def Let_def)
        next
          case body: (Inr responseBody)
          show ?thesis
          proof (cases "mxj_NewMapXml L responseBody")
            case (Inl err)
            then show ?thesis using cr u req tr resp body unfolding u'_def req'_def
              by (simp add: SendRequest_def Let_def)
          next
            case (Inr mapXML)
            then show ?thesis using cr u req tr resp body unfolding u'_def req'_def
              by (simp add: SendRequest_def Let_def)
          qed
        qed
      qed
    qed
  qed
qed


section \<open>The claims\<close>

text \<open>
  C6. The clean-up of \<^verbatim>\<open>createRequest\<close> (white space between a closing and an
  opening angle bracket removed, then every remaining run of white space replaced by one
  space) is idempotent: cleaning a cleaned string gives the same string, for every input.
\<close>

theorem clean_idempotent: "clean (clean s) = clean s"
  by (rule clean_fixed)

theorem clean_idempotent_witness:
  "clean ''<a><b> x y </b></a>'' = ''<a><b> x y </b></a>''"
proof -
  have "clean ''<a>  <b> x   y </b> </a>'' = ''<a><b> x y </b></a>''"
    by (simp add: clean_eq isSpace_def)
  then show ?thesis
    using clean_idempotent [of "''<a>  <b> x   y </b> </a>''"] by simp
qed

end
